theory Spec2Isabelle
  imports Main "HOL-Library.AList"
begin

section \<open>Logging configuration of prefect: \<open>src/prefect/logging/configuration.py\<close>\<close>

text \<open>
  The module loads a YAML logging configuration, overlays environment variables and
  references to settings on its leaves, and applies the result once per process.
  The embedding follows the source function by function. Python values are a datatype,
  dictionaries are association lists in insertion order (a Python \<open>dict\<close> has distinct
  keys: the predicate \<open>wf_val\<close> below), exceptions are the left summand of a sum type,
  and the module global and the logging registry are fields of an explicit state.
  A \<open>char\<close> stands for a Unicode code point below 256 (Latin-1); \<open>str.upper\<close> and
  the class \<open>\w\<close> follow Python on that range. Floating-point leaves are left out of
  the value type.
\<close>

subsection \<open>Python values\<close>

datatype val =
    VNone
  | VBool bool
  | VInt int
  | VStr string
  | VList "val list"
  | VDict "(string \<times> val) list"

type_synonym pydict = "(string \<times> val) list"

type_synonym flatkey = "string list"

type_synonym flatdict = "(flatkey \<times> val) list"

subsection \<open>Character classes and \<open>str.upper\<close>\<close>

definition is_digit :: "char \<Rightarrow> bool" where
  "is_digit c = (let n = (of_char c :: nat) in 48 \<le> n \<and> n \<le> 57)"

definition is_lower :: "char \<Rightarrow> bool" where
  "is_lower c = (let n = (of_char c :: nat) in 97 \<le> n \<and> n \<le> 122)"

definition is_upper :: "char \<Rightarrow> bool" where
  "is_upper c = (let n = (of_char c :: nat) in 65 \<le> n \<and> n \<le> 90)"

text \<open>The complement of the regex class \<open>[^0-9a-zA-Z]\<close>.\<close>

definition alnum :: "char \<Rightarrow> bool" where
  "alnum c = (is_digit c \<or> is_lower c \<or> is_upper c)"

text \<open>
  The code points from 128 to 255 that \<open>str.isalnum\<close> accepts: the letters
  \<open>U+00AA\<close>, \<open>U+00B5\<close>, \<open>U+00BA\<close>, \<open>U+00C0\<close> to \<open>U+00D6\<close>,
  \<open>U+00D8\<close> to \<open>U+00F6\<close> and \<open>U+00F8\<close> to \<open>U+00FF\<close>, the superscript
  digits \<open>U+00B2\<close>, \<open>U+00B3\<close>, \<open>U+00B9\<close> and the fractions \<open>U+00BC\<close> to
  \<open>U+00BE\<close>.
\<close>

definition latin1_alnum :: "char \<Rightarrow> bool" where
  "latin1_alnum c =
     (let n = (of_char c :: nat)
      in n = 170 \<or> n = 178 \<or> n = 179 \<or> n = 181 \<or> n = 185 \<or> n = 186 \<or>
         (188 \<le> n \<and> n \<le> 190) \<or> (192 \<le> n \<and> n \<le> 214) \<or>
         (216 \<le> n \<and> n \<le> 246) \<or> (248 \<le> n \<and> n \<le> 255))"

text \<open>
  The regex class \<open>[\w\d_]\<close>. On a \<open>str\<close> pattern \<open>\w\<close> is Unicode-aware: the
  characters \<open>str.isalnum\<close> accepts and the underscore; \<open>\d\<close> adds nothing to it.
\<close>

definition word_char :: "char \<Rightarrow> bool" where
  "word_char c = (alnum c \<or> c = CHR ''_'' \<or> latin1_alnum c)"

text \<open>
  \<open>str.upper\<close> maps every character by itself. Below 256 it moves the letters
  \<open>a\<close> to \<open>z\<close>, \<open>U+00E0\<close> to \<open>U+00F6\<close> and \<open>U+00F8\<close> to \<open>U+00FE\<close> down by
  32 and turns \<open>U+00DF\<close> (sharp s) into \<open>SS\<close>. The upper-case forms of \<open>U+00B5\<close>
  and \<open>U+00FF\<close> lie beyond 255; these two characters stand for their upper-case
  forms, which like them are outside \<open>[0-9a-zA-Z]\<close>.
\<close>

definition upper_char :: "char \<Rightarrow> string" where
  "upper_char c =
     (let n = (of_char c :: nat)
      in if (97 \<le> n \<and> n \<le> 122) \<or> (224 \<le> n \<and> n \<le> 246) \<or> (248 \<le> n \<and> n \<le> 254)
         then [char_of (n - 32)]
         else if n = 223 then ''SS''
         else [c])"

definition upper :: "string \<Rightarrow> string" where
  "upper s = concat (map upper_char s)"

subsection \<open>\<open>to_envvar\<close> and the environment lookup key\<close>

text \<open>
  \<^verbatim>\<open>to_envvar = partial(re.sub, re.compile(r"[^0-9a-zA-Z]+"), "_")\<close>

  \<open>re.sub\<close> scans from the left; where a character outside the class starts a match,
  the greedy \<open>+\<close> consumes every following character outside the class, the match is
  replaced by \<open>_\<close> and the scan goes on behind it.
\<close>

function to_envvar :: "string \<Rightarrow> string" where
  "to_envvar [] = []"
| "to_envvar (c # cs) =
     (if alnum c then c # to_envvar cs
      else CHR ''_'' # to_envvar (dropWhile (\<lambda>d. \<not> alnum d) cs))"
  by pat_completeness auto
termination
  by (relation "measure length") (auto simp: less_Suc_eq_le length_dropWhile_le)

text \<open>\<^verbatim>\<open>"_".join(key_tup)\<close>\<close>

fun join_underscore :: "string list \<Rightarrow> string" where
  "join_underscore [] = []"
| "join_underscore [s] = s"
| "join_underscore (s # t # ss) = s @ ''_'' @ join_underscore (t # ss)"

text \<open>
  \<^verbatim>\<open>to_envvar((settings.Config.env_prefix + "_".join(key_tup)).upper())\<close>
\<close>

definition env_lookup_key :: "string \<Rightarrow> flatkey \<Rightarrow> string" where
  "env_lookup_key prefix key_tup = to_envvar (upper (prefix @ join_underscore key_tup))"

text \<open>
  The derivation in the words of the specification. A string falls into maximal runs of
  characters of one kind (alphanumeric or not); every run of non-alphanumeric characters
  becomes a single underscore.
\<close>

function runs :: "string \<Rightarrow> string list" where
  "runs [] = []"
| "runs (c # cs) =
     (c # takeWhile (\<lambda>d. alnum d = alnum c) cs) # runs (dropWhile (\<lambda>d. alnum d = alnum c) cs)"
  by pat_completeness auto
termination
  by (relation "measure length") (auto simp: less_Suc_eq_le length_dropWhile_le)

definition spec_replace_runs :: "string \<Rightarrow> string" where
  "spec_replace_runs s =
     concat (map (\<lambda>r. case r of [] \<Rightarrow> [] | c # _ \<Rightarrow> if alnum c then r else ''_'') (runs s))"

text \<open>
  The specification lists the steps as: join the segments with \<open>_\<close>, upper-case,
  prefix, replace the runs.
\<close>

definition spec_env_key :: "string \<Rightarrow> flatkey \<Rightarrow> string" where
  "spec_env_key prefix key_tup = spec_replace_runs (prefix @ upper (join_underscore key_tup))"

subsection \<open>Settings references\<close>

text \<open>
  \<^verbatim>\<open>interpolated_settings = re.compile(r"^{{([\w\d_]+)}}$")\<close>, used with \<open>match\<close>.

  After \<open>{{\<close> the greedy class takes the longest run of word characters; a shorter one
  would be followed by a word character, never by \<open>}\<close>. Without \<open>re.MULTILINE\<close>,
  Python's \<open>$\<close> matches at the end of the string and also just before a newline that
  is the last character. The result is the first capture group.
\<close>

definition interpolated_settings_match :: "string \<Rightarrow> string option" where
  "interpolated_settings_match s =
     (case s of
        c1 # c2 # rest \<Rightarrow>
          if c1 = CHR ''{'' \<and> c2 = CHR ''{'' then
            (let ident = takeWhile word_char rest;
                 remainder = dropWhile word_char rest
             in if ident \<noteq> [] \<and> (remainder = ''}}'' \<or> remainder = ''}}'' @ [CHR 0x0A])
                then Some ident else None)
          else None
      | _ \<Rightarrow> None)"

text \<open>\<^verbatim>\<open>val.startswith(r"{{")\<close>\<close>

definition startswith_braces :: "string \<Rightarrow> bool" where
  "startswith_braces s = (take 2 s = ''{{'')"

text \<open>
  The settings object, as far as the module reads it: \<open>settings_path\<close>,
  \<open>Config.env_prefix\<close>, the attributes \<open>getattr\<close> can find (\<open>None\<close> where
  \<open>getattr\<close> falls back to its default) and the list \<open>get_extra_loggers()\<close> returns.
  The class \<open>LoggingSettings\<close> is declared outside this module.
\<close>

record settings =
  settings_path :: string
  env_prefix :: string
  attrs :: "string \<Rightarrow> val option"
  extra_loggers :: "string list"

text \<open>\<^verbatim>\<open>getattr(settings, matched_key, None)\<close>\<close>

definition getattr_or_none :: "settings \<Rightarrow> string \<Rightarrow> val" where
  "getattr_or_none st name = (case attrs st name of Some a \<Rightarrow> a | None \<Rightarrow> VNone)"

text \<open>
  The body of the loop of \<open>load_logging_config\<close> for one entry: the value the entry's
  key is reassigned to. \<open>environ\<close> is \<open>os.environ.get\<close>.
\<close>

definition resolve_leaf ::
  "(string \<Rightarrow> string option) \<Rightarrow> settings \<Rightarrow> flatkey \<Rightarrow> val \<Rightarrow> val" where
  "resolve_leaf environ st key_tup v =
     (let env_val = environ (env_lookup_key (env_prefix st) key_tup);
          v1 = (case env_val of
                  None \<Rightarrow> v
                | Some e \<Rightarrow> if e \<noteq> [] then VStr e else v)
      in case v1 of
           VStr s \<Rightarrow>
             if startswith_braces s then
               (case interpolated_settings_match s of
                  Some matched_key \<Rightarrow> getattr_or_none st matched_key
                | None \<Rightarrow> v1)
             else v1
         | _ \<Rightarrow> v1)"

text \<open>
  \<^verbatim>\<open>for key_tup, val in flat_config.items(): ...; flat_config[key_tup] = val\<close>

  Assigning to a key that exists keeps the key's position.
\<close>

fun override_loop ::
  "(string \<Rightarrow> string option) \<Rightarrow> settings \<Rightarrow> flatdict \<Rightarrow> flatdict \<Rightarrow> flatdict" where
  "override_loop environ st [] flat_config = flat_config"
| "override_loop environ st ((key_tup, v) # items) flat_config =
     override_loop environ st items
       (AList.update key_tup (resolve_leaf environ st key_tup v) flat_config)"

definition resolve_overrides ::
  "(string \<Rightarrow> string option) \<Rightarrow> settings \<Rightarrow> flatdict \<Rightarrow> flatdict" where
  "resolve_overrides environ st flat_config = override_loop environ st flat_config flat_config"

text \<open>
  The specification's settings reference: the exact form \<open>{{IDENTIFIER}}\<close> with a
  non-empty identifier of word characters.
\<close>

definition spec_reference :: "string \<Rightarrow> string \<Rightarrow> bool" where
  "spec_reference s ident =
     (ident \<noteq> [] \<and> list_all word_char ident \<and> s = ''{{'' @ ident @ ''}}'')"

text \<open>The same form followed by one newline, which Python's \<open>$\<close> lets through.\<close>

definition reference_before_newline :: "string \<Rightarrow> string \<Rightarrow> bool" where
  "reference_before_newline s ident =
     (ident \<noteq> [] \<and> list_all word_char ident \<and> s = ''{{'' @ ident @ ''}}'' @ [CHR 0x0A])"

subsection \<open>Well-formed values and Python equality\<close>

text \<open>
  A Python \<open>dict\<close> never holds a key twice. The association lists that stand for
  dictionaries are well formed when their keys are distinct, at every depth.
\<close>

fun wf_val :: "val \<Rightarrow> bool" where
  "wf_val (VList xs) = list_all wf_val xs"
| "wf_val (VDict d) = (distinct (map fst d) \<and> list_all (\<lambda>kv. wf_val (snd kv)) d)"
| "wf_val _ = True"

text \<open>
  Python's \<open>==\<close> on these values: \<open>bool\<close> is a subclass of \<open>int\<close>, lists are
  compared element by element, dictionaries by size and by the value under every key,
  whatever the insertion order.
\<close>

fun py_eq :: "val \<Rightarrow> val \<Rightarrow> bool" where
  "py_eq VNone VNone = True"
| "py_eq (VBool a) (VBool b) = (a = b)"
| "py_eq (VBool a) (VInt j) = ((if a then 1 else 0) = j)"
| "py_eq (VInt i) (VBool b) = (i = (if b then 1 else 0))"
| "py_eq (VInt i) (VInt j) = (i = j)"
| "py_eq (VStr s) (VStr t) = (s = t)"
| "py_eq (VList xs) (VList ys) = list_all2 py_eq xs ys"
| "py_eq (VDict a) (VDict b) =
     (length a = length b \<and>
      list_all (\<lambda>kv. case map_of b (fst kv) of None \<Rightarrow> False | Some w \<Rightarrow> py_eq (snd kv) w) a)"
| "py_eq _ _ = False"

subsection \<open>Flattening and unflattening\<close>

text \<open>
  Modelled from the spec: \<open>dict_to_flatdict\<close> of \<open>prefect.utilities.collections\<close> is
  not among the sources. The specification has flattening turn a nested mapping into a
  flat mapping keyed by path tuples, one entry for each leaf, the path running from the
  root to the leaf. A leaf is a value without children: a scalar, a list, or a mapping
  that is empty.
\<close>

fun dict_to_flatdict :: "pydict \<Rightarrow> flatdict" where
  "dict_to_flatdict [] = []"
| "dict_to_flatdict ((k, VDict (x # xs)) # rest) =
     map (\<lambda>(p, w). (k # p, w)) (dict_to_flatdict (x # xs)) @ dict_to_flatdict rest"
| "dict_to_flatdict ((k, v) # rest) = ([k], v) # dict_to_flatdict rest"

text \<open>
  Modelled from the spec: \<open>flatdict_to_dict\<close> of \<open>prefect.utilities.collections\<close> is
  not among the sources. The specification has unflattening reassemble the nested
  mapping from the flat one. Every entry is stored under its path, the mappings on the
  way being created where they are missing; an entry whose path is empty, or runs
  through a value that is not a mapping, cannot be stored.
\<close>

definition setdefault_dict :: "pydict \<Rightarrow> string \<Rightarrow> pydict option" where
  "setdefault_dict d k =
     (case map_of d k of
        None \<Rightarrow> Some []
      | Some (VDict sub) \<Rightarrow> Some sub
      | Some _ \<Rightarrow> None)"

fun insert_path :: "flatkey \<Rightarrow> val \<Rightarrow> pydict \<Rightarrow> pydict option" where
  "insert_path [] v d = None"
| "insert_path [k] v d = Some (AList.update k v d)"
| "insert_path (k # k' # ks) v d =
     (case setdefault_dict d k of
        None \<Rightarrow> None
      | Some sub \<Rightarrow>
          (case insert_path (k' # ks) v sub of
             None \<Rightarrow> None
           | Some sub' \<Rightarrow> Some (AList.update k (VDict sub') d)))"

fun flatdict_to_dict_from :: "flatdict \<Rightarrow> pydict \<Rightarrow> pydict option" where
  "flatdict_to_dict_from [] result = Some result"
| "flatdict_to_dict_from ((key_tuple, v) # items) result =
     (case insert_path key_tuple v result of
        None \<Rightarrow> None
      | Some result' \<Rightarrow> flatdict_to_dict_from items result')"

definition flatdict_to_dict :: "flatdict \<Rightarrow> pydict option" where
  "flatdict_to_dict flat = flatdict_to_dict_from flat []"

text \<open>
  The same tree with every leaf replaced: \<open>f\<close> receives the path of the leaf and its
  value. This is what the specification calls a mapping of the same tree shape.
\<close>

fun map_leaves :: "(flatkey \<Rightarrow> val \<Rightarrow> val) \<Rightarrow> pydict \<Rightarrow> pydict" where
  "map_leaves f [] = []"
| "map_leaves f ((k, VDict (x # xs)) # rest) =
     (k, VDict (map_leaves (\<lambda>p. f (k # p)) (x # xs))) # map_leaves f rest"
| "map_leaves f ((k, v) # rest) = (k, f [k] v) # map_leaves f rest"

definition resolve_items :: "(flatkey \<Rightarrow> val \<Rightarrow> val) \<Rightarrow> flatdict \<Rightarrow> flatdict" where
  "resolve_items f items = map (\<lambda>(p, w). (p, f p w)) items"

subsection \<open>\<open>load_logging_config\<close>\<close>

text \<open>
  What the module reads from outside: the file system (\<open>Path.exists\<close> and
  \<open>Path.read_text\<close>, a path to its content), the bundled default path, \<open>os.environ\<close>,
  \<open>yaml.safe_load\<close> (\<open>None\<close> where it raises a YAML error) and the configurator
  behind \<open>logging.config.dictConfig\<close>, which updates the logger registry or raises.
\<close>

record logger =
  handlers :: "nat list"
  level :: int
  propagate :: bool

type_synonym registry = "string \<Rightarrow> logger"

record world =
  files :: "string \<Rightarrow> string option"
  DEFAULT_LOGGING_SETTINGS_PATH :: string
  os_environ :: "string \<Rightarrow> string option"
  yaml_safe_load :: "string \<Rightarrow> val option"
  configurator :: "pydict \<Rightarrow> registry \<Rightarrow> registry option"

datatype error =
    NotFoundError
  | ParseError
  | InvalidFlatKey
  | KeyError string
  | LoggingConfigError

text \<open>
  Modelled from the spec: what \<open>dict_to_flatdict\<close> does with a parsed value that is
  not a mapping, and what \<open>flatdict_to_dict\<close> does with an entry it cannot store.
  Step 1 of the specification's resolver fails with \<open>ParseError\<close> when the content
  is not a mapping-shaped serialization.
\<close>

definition flatten_parsed :: "val \<Rightarrow> error + flatdict" where
  "flatten_parsed v = (case v of VDict config \<Rightarrow> Inr (dict_to_flatdict config) | _ \<Rightarrow> Inl ParseError)"

definition unflatten_resolved_config :: "flatdict \<Rightarrow> error + pydict" where
  "unflatten_resolved_config flat =
     (case flatdict_to_dict flat of None \<Rightarrow> Inl InvalidFlatKey | Some resolved \<Rightarrow> Inr resolved)"

text \<open>
  \<^verbatim>\<open>
  config = yaml.safe_load(path.read_text())
  flat_config = dict_to_flatdict(config)
  for key_tup, val in flat_config.items(): ...
  return flatdict_to_dict(flat_config)
  \<close>
  \<open>read_text\<close> raises \<open>FileNotFoundError\<close> for a missing file (\<open>NotFoundError\<close>),
  \<open>yaml.safe_load\<close> a YAML error for content it cannot parse (\<open>ParseError\<close>).
\<close>

definition load_logging_config :: "world \<Rightarrow> string \<Rightarrow> settings \<Rightarrow> error + pydict" where
  "load_logging_config w path st =
     (case files w path of
        None \<Rightarrow> Inl NotFoundError
      | Some content \<Rightarrow>
          (case yaml_safe_load w content of
             None \<Rightarrow> Inl ParseError
           | Some config \<Rightarrow>
               (case flatten_parsed config of
                  Inl e \<Rightarrow> Inl e
                | Inr flat_config \<Rightarrow>
                    unflatten_resolved_config (resolve_overrides (os_environ w) st flat_config))))"

subsection \<open>\<open>setup_logging\<close>\<close>

text \<open>
  The state of the process: the module global \<open>PROCESS_LOGGING_CONFIG\<close> (\<open>None\<close> at
  start), the registry behind \<open>logging.getLogger\<close>, the configurations handed to
  \<open>dictConfig\<close> so far, and the \<open>config_diff\<close> of every warning emitted so far.
  Handlers are objects, told apart by a number.
\<close>

record process =
  PROCESS_LOGGING_CONFIG :: "pydict option"
  loggers :: registry
  applied :: "pydict list"
  warnings :: "pydict list"

definition NOTSET :: int where
  "NOTSET = 0"

text \<open>\<open>Logger.addHandler\<close>: a handler the logger has already is not added again.\<close>

definition addHandler :: "nat \<Rightarrow> logger \<Rightarrow> logger" where
  "addHandler h lg =
     (if h \<in> set (handlers lg) then lg else lg\<lparr>handlers := handlers lg @ [h]\<rparr>)"

text \<open>
  The body of the inner loop, for one handler of the template logger:
  \<^verbatim>\<open>
  logger.addHandler(handler)
  if logger.level == logging.NOTSET:
      logger.setLevel(extra_config.level)
  logger.propagate = extra_config.propagate
  \<close>
  The template is read from the registry at each statement, since \<open>logger\<close> may be
  the template itself.
\<close>

definition copy_step :: "string \<Rightarrow> nat \<Rightarrow> registry \<Rightarrow> registry" where
  "copy_step logger_name h reg =
     (let reg1 = reg(logger_name := addHandler h (reg logger_name));
          reg2 = (if level (reg1 logger_name) = NOTSET
                  then reg1(logger_name :=
                         (reg1 logger_name)\<lparr>level := level (reg1 ''prefect.extra'')\<rparr>)
                  else reg1)
      in reg2(logger_name :=
           (reg2 logger_name)\<lparr>propagate := propagate (reg2 ''prefect.extra'')\<rparr>))"

text \<open>
  \<^verbatim>\<open>for handler in extra_config.handlers: ...\<close>

  The handler list of the template does not change while the loop runs: when the target
  is the template itself, \<open>addHandler\<close> finds every handler present.
\<close>

definition copy_to_logger :: "string \<Rightarrow> registry \<Rightarrow> registry" where
  "copy_to_logger logger_name reg =
     fold (copy_step logger_name) (handlers (reg ''prefect.extra'')) reg"

text \<open>\<^verbatim>\<open>for logger_name in settings.get_extra_loggers(): ...\<close>\<close>

definition copy_extra_config :: "string list \<Rightarrow> registry \<Rightarrow> registry" where
  "copy_extra_config names reg = fold copy_to_logger names reg"

text \<open>
  \<^verbatim>\<open>
  config_diff = {
      key: value
      for key, value in config.items()
      if PROCESS_LOGGING_CONFIG[key] != value
  }
  \<close>
  The subscript raises \<open>KeyError\<close> at the first key of \<open>config\<close> that the stored
  configuration does not have.
\<close>

fun config_diff :: "pydict \<Rightarrow> pydict \<Rightarrow> error + pydict" where
  "config_diff stored [] = Inr []"
| "config_diff stored ((key, v) # items) =
     (case map_of stored key of
        None \<Rightarrow> Inl (KeyError key)
      | Some old \<Rightarrow>
          (case config_diff stored items of
             Inl e \<Rightarrow> Inl e
           | Inr diff \<Rightarrow> Inr (if \<not> py_eq old v then (key, v) # diff else diff)))"

text \<open>
  \<^verbatim>\<open>if PROCESS_LOGGING_CONFIG:\<close> is a test for truthiness: \<open>None\<close> and the empty
  dictionary both fail it.
\<close>

definition configured :: "pydict option \<Rightarrow> pydict option" where
  "configured c = (case c of None \<Rightarrow> None | Some stored \<Rightarrow> if stored \<noteq> [] then Some stored else None)"

definition config_path :: "world \<Rightarrow> settings \<Rightarrow> string" where
  "config_path w st =
     (if files w (settings_path st) \<noteq> None then settings_path st
      else DEFAULT_LOGGING_SETTINGS_PATH w)"

text \<open>
  \<^verbatim>\<open>logging.config.dictConfig(config)\<close>

  CPython's \<open>DictConfigurator.configure\<close> begins with
  \<^verbatim>\<open>
  if 'version' not in config:
      raise ValueError("dictionary doesn't specify a version")
  if config['version'] != 1:
      raise ValueError("Unsupported version: %s" % config['version'])
  \<close>
  and only then configures formatters, filters, handlers and loggers, which is the
  configurator of the world.
\<close>

definition dictConfig :: "world \<Rightarrow> pydict \<Rightarrow> registry \<Rightarrow> registry option" where
  "dictConfig w config reg =
     (case map_of config ''version'' of
        None \<Rightarrow> None
      | Some version \<Rightarrow> if py_eq version (VInt 1) then configurator w config reg else None)"

text \<open>
  The first apply, after \<open>dictConfig\<close> returned the registry \<open>reg\<close>: the copy onto the
  extra loggers and the assignment to the global.
\<close>

definition apply_config :: "settings \<Rightarrow> pydict \<Rightarrow> registry \<Rightarrow> process \<Rightarrow> process" where
  "apply_config st config reg s =
     s\<lparr>loggers := copy_extra_config (extra_loggers st) reg,
       applied := applied s @ [config],
       PROCESS_LOGGING_CONFIG := Some config\<rparr>"

definition setup_logging :: "world \<Rightarrow> settings \<Rightarrow> process \<Rightarrow> error + process" where
  "setup_logging w st s =
     (case load_logging_config w (config_path w st) st of
        Inl e \<Rightarrow> Inl e
      | Inr config \<Rightarrow>
          (case configured (PROCESS_LOGGING_CONFIG s) of
             Some stored \<Rightarrow>
               (case config_diff stored config of
                  Inl e \<Rightarrow> Inl e
                | Inr diff \<Rightarrow>
                    Inr (if diff \<noteq> [] then s\<lparr>warnings := warnings s @ [diff]\<rparr> else s))
           | None \<Rightarrow>
               (case dictConfig w config (loggers s) of
                  None \<Rightarrow> Inl LoggingConfigError
                | Some reg \<Rightarrow> Inr (apply_config st config reg s))))"

text \<open>What a caller can observe of a result, and a second call after a first.\<close>

definition observe :: "error + process \<Rightarrow> error + pydict option \<times> pydict list \<times> pydict list" where
  "observe r = map_sum id (\<lambda>s. (PROCESS_LOGGING_CONFIG s, applied s, warnings s)) r"

definition observe_logger :: "string \<Rightarrow> error + process \<Rightarrow> error + logger" where
  "observe_logger name r = map_sum id (\<lambda>s. loggers s name) r"

definition then_setup_logging :: "error + process \<Rightarrow> world \<Rightarrow> settings \<Rightarrow> error + process" where
  "then_setup_logging r w st = (case r of Inl e \<Rightarrow> Inl e | Inr s \<Rightarrow> setup_logging w st s)"

subsection \<open>Example inputs for the concrete evaluations\<close>

definition example_settings :: settings where
  "example_settings =
     \<lparr> settings_path = ''/etc/prefect/logging.yml'',
       env_prefix = ''APP_'',
       attrs = [''log_level'' \<mapsto> VStr ''WARNING''],
       extra_loggers = [''vendor.lib''] \<rparr>"

definition example_flat :: flatdict where
  "example_flat =
     [([''version''], VInt 1),
      ([''loggers'', ''root'', ''level''], VStr ''{{log_level}}''),
      ([''loggers'', ''root'', ''note''], VStr ''{{not closed''),
      ([''loggers'', ''root'', ''text''], VStr ''plain text''),
      ([''loggers'', ''root'', ''missing''], VStr ''{{missing_attr}}''),
      ([''loggers'', ''root'', ''line''], VStr (''{{log_level}}'' @ [CHR 0x0A]))]"

definition example_environ :: "string \<Rightarrow> string option" where
  "example_environ =
     [''APP_VERSION'' \<mapsto> ''{{log_level}}'',
      ''APP_LOGGERS_ROOT_TEXT'' \<mapsto> ''DEBUG'',
      ''APP_LOGGERS_ROOT_NOTE'' \<mapsto> []]"

text \<open>
  A parser table for the example files, a configurator that gives the template logger
  the handlers \<open>hs\<close>, level \<open>DEBUG\<close> and no propagation (it is consulted for a
  configuration of version 1 only), and a process that has not set up logging.
\<close>

definition example_tree :: pydict where
  "example_tree =
     [(''version'', VInt 1),
      (''loggers'', VDict [(''root'', VDict [(''level'', VStr ''{{log_level}}''),
                                             (''handlers'', VDict [])])]),
      (''note'', VStr ''plain text'')]"

definition example_tree_file :: string where
  "example_tree_file =
     ''{version: 1, loggers: {root: {level: '' @ [CHR 0x22] @ ''{{log_level}}'' @ [CHR 0x22] @
     '', handlers: {}}}, note: plain text}''"

definition example_yaml :: "string \<Rightarrow> val option" where
  "example_yaml =
     [''{}'' \<mapsto> VDict [],
      ''{version: 1}'' \<mapsto> VDict [(''version'', VInt 1)],
      ''{version: 1, handlers: {}}'' \<mapsto> VDict [(''version'', VInt 1), (''handlers'', VDict [])],
      ''{handlers: {}, version: 1}'' \<mapsto> VDict [(''handlers'', VDict []), (''version'', VInt 1)],
      ''{version: 1, loggers: {prefect.extra: {level: DEBUG, propagate: false}}}'' \<mapsto>
        VDict [(''version'', VInt 1),
               (''loggers'', VDict [(''prefect.extra'',
                  VDict [(''level'', VStr ''DEBUG''), (''propagate'', VBool False)])])],
      ''- console'' \<mapsto> VList [VStr ''console''],
      example_tree_file \<mapsto> VDict example_tree]"

definition example_configurator :: "nat list \<Rightarrow> pydict \<Rightarrow> registry \<Rightarrow> registry option" where
  "example_configurator hs config reg =
     Some (reg(''prefect.extra'' := \<lparr>handlers = hs, level = 10, propagate = False\<rparr>))"

definition example_world :: "string option \<Rightarrow> string option \<Rightarrow> nat list \<Rightarrow> world" where
  "example_world user_file default_file hs =
     \<lparr> files = Map.empty(''/opt/prefect/logging.yml'' := default_file,
                         ''/etc/prefect/logging.yml'' := user_file),
       DEFAULT_LOGGING_SETTINGS_PATH = ''/opt/prefect/logging.yml'',
       os_environ = Map.empty,
       yaml_safe_load = example_yaml,
       configurator = example_configurator hs \<rparr>"

definition initial_process :: process where
  "initial_process =
     \<lparr> PROCESS_LOGGING_CONFIG = None,
       loggers = (\<lambda>name. \<lparr>handlers = [], level = 0, propagate = True\<rparr>),
       applied = [],
       warnings = [] \<rparr>"

section \<open>The environment lookup key\<close>

lemma upper_append: "upper (a @ b) = upper a @ upper b"
  by (simp add: upper_def)

lemma to_envvar_alnum_prefix:
  "list_all alnum xs \<Longrightarrow> to_envvar (xs @ ys) = xs @ to_envvar ys"
  by (induction xs) auto

lemma to_envvar_takeWhile:
  "to_envvar cs = takeWhile alnum cs @ to_envvar (dropWhile alnum cs)"
proof -
  have "list_all alnum (takeWhile alnum cs)"
    by (induction cs) auto
  then have "to_envvar (takeWhile alnum cs @ dropWhile alnum cs) =
      takeWhile alnum cs @ to_envvar (dropWhile alnum cs)"
    by (rule to_envvar_alnum_prefix)
  then show ?thesis by simp
qed

lemma to_envvar_runs: "to_envvar s = spec_replace_runs s"
proof (induction s rule: runs.induct)
  case 1
  show ?case by (simp add: spec_replace_runs_def)
next
  case (2 c cs)
  show ?case
  proof (cases "alnum c")
    case True
    then have same: "(\<lambda>d. alnum d = alnum c) = alnum" by auto
    have "to_envvar (c # cs) = c # takeWhile alnum cs @ to_envvar (dropWhile alnum cs)"
      using True to_envvar_takeWhile [of cs] by simp
    also have "\<dots> = c # takeWhile alnum cs @ spec_replace_runs (dropWhile alnum cs)"
      using "2.IH" same by simp
    finally show ?thesis
      using True same by (simp add: spec_replace_runs_def)
  next
    case False
    then have same: "(\<lambda>d. alnum d = alnum c) = (\<lambda>d. \<not> alnum d)" by auto
    have "to_envvar (c # cs) = CHR ''_'' # to_envvar (dropWhile (\<lambda>d. \<not> alnum d) cs)"
      using False by simp
    also have "\<dots> = CHR ''_'' # spec_replace_runs (dropWhile (\<lambda>d. \<not> alnum d) cs)"
      using "2.IH" same by simp
    finally show ?thesis
      using False same by (simp add: spec_replace_runs_def)
  qed
qed

text \<open>
  C7, as stated: the lookup key of the code is the key obtained by joining the segments
  with \<open>_\<close>, upper-casing, prefixing and replacing the runs, for every prefix.
  This fails for a prefix with a lower-case letter: the code upper-cases the prefix too.
\<close>

theorem env_lookup_key_spec_counterexample:
  "env_lookup_key ''app_'' [''level''] \<noteq> spec_env_key ''app_'' [''level'']"
  by code_simp

text \<open>
  C7, amended: the lookup key is the prefix followed by the segments joined with \<open>_\<close>,
  upper-cased as a whole (prefix included), with every maximal run of non-alphanumeric
  characters replaced by a single \<open>_\<close>; it is the key of the specification whenever
  upper-casing leaves the prefix unchanged.
\<close>

theorem env_lookup_key_upper_prefix:
  "env_lookup_key prefix key_tup =
     spec_replace_runs (upper prefix @ upper (join_underscore key_tup)) \<and>
   (upper prefix = prefix \<longrightarrow> env_lookup_key prefix key_tup = spec_env_key prefix key_tup)"
  by (simp add: env_lookup_key_def spec_env_key_def to_envvar_runs upper_append)

theorem env_lookup_key_upper_prefix_witness:
  "upper ''APP_'' = ''APP_'' \<and>
   env_lookup_key ''APP_'' [''loggers'', ''root'', ''level''] =
     spec_env_key ''APP_'' [''loggers'', ''root'', ''level''] \<and>
   spec_env_key ''APP_'' [''loggers'', ''root'', ''level''] = ''APP_LOGGERS_ROOT_LEVEL''"
proof -
  have u: "upper ''APP_'' = ''APP_''" by code_simp
  have k: "spec_env_key ''APP_'' [''loggers'', ''root'', ''level''] = ''APP_LOGGERS_ROOT_LEVEL''"
    by code_simp
  from env_lookup_key_upper_prefix [of "''APP_''" "[''loggers'', ''root'', ''level'']"] u
  have "env_lookup_key ''APP_'' [''loggers'', ''root'', ''level''] =
      spec_env_key ''APP_'' [''loggers'', ''root'', ''level'']"
    by blast
  with u k show ?thesis by blast
qed

section \<open>Overrides and settings references in \<open>load_logging_config\<close>\<close>

lemma not_word_char_brace: "\<not> word_char (CHR ''}'')"
  by (simp add: word_char_def alnum_def latin1_alnum_def is_digit_def is_lower_def is_upper_def)

lemma match_startswith:
  "interpolated_settings_match s = Some ident \<Longrightarrow> startswith_braces s"
  by (auto simp: interpolated_settings_match_def startswith_braces_def
      split: list.splits if_splits)

lemma match_sound:
  assumes "interpolated_settings_match s = Some ident"
  shows "spec_reference s ident \<or> reference_before_newline s ident"
proof -
  from assms obtain rest where s: "s = CHR ''{'' # CHR ''{'' # rest"
    and ident: "ident = takeWhile word_char rest" and ne: "ident \<noteq> []"
    and rem: "dropWhile word_char rest = ''}}'' \<or> dropWhile word_char rest = ''}}'' @ [CHR 0x0A]"
    by (auto simp: interpolated_settings_match_def Let_def split: list.splits if_splits)
  have all: "list_all word_char ident"
    unfolding ident by (induction rest) auto
  have "rest = ident @ dropWhile word_char rest"
    unfolding ident by simp
  with rem have "rest = ident @ ''}}'' \<or> rest = ident @ ''}}'' @ [CHR 0x0A]"
    by metis
  with s ne all show ?thesis
    by (auto simp: spec_reference_def reference_before_newline_def)
qed

lemma match_complete:
  assumes "spec_reference s ident \<or> reference_before_newline s ident"
  shows "interpolated_settings_match s = Some ident"
proof -
  from assms obtain tl where s: "s = CHR ''{'' # CHR ''{'' # ident @ CHR ''}'' # tl"
    and tl: "CHR ''}'' # tl = ''}}'' \<or> CHR ''}'' # tl = ''}}'' @ [CHR 0x0A]"
    and ne: "ident \<noteq> []" and all: "list_all word_char ident"
    by (auto simp: spec_reference_def reference_before_newline_def)
  from all have w: "\<And>c. c \<in> set ident \<Longrightarrow> word_char c"
    by (simp add: list_all_iff)
  have t: "takeWhile word_char (ident @ CHR ''}'' # tl) = ident"
    using w not_word_char_brace by (simp add: takeWhile_append2)
  have d: "dropWhile word_char (ident @ CHR ''}'' # tl) = CHR ''}'' # tl"
    using w not_word_char_brace by (simp add: dropWhile_append2)
  show ?thesis
    using s tl ne t d by (auto simp: interpolated_settings_match_def Let_def)
qed

lemma match_iff:
  "interpolated_settings_match s = Some ident \<longleftrightarrow>
     (spec_reference s ident \<or> reference_before_newline s ident)"
  using match_sound match_complete by blast

lemma match_None_iff:
  "interpolated_settings_match s = None \<longleftrightarrow>
     (\<forall>ident. \<not> spec_reference s ident \<and> \<not> reference_before_newline s ident)"
  using match_iff [of s] by (cases "interpolated_settings_match s") auto

lemma resolve_leaf_not_overridden:
  assumes "environ (env_lookup_key (env_prefix st) key_tup) = None \<or>
           environ (env_lookup_key (env_prefix st) key_tup) = Some []"
  shows "resolve_leaf environ st key_tup (VStr s) =
     (case interpolated_settings_match s of
        Some ident \<Rightarrow> getattr_or_none st ident
      | None \<Rightarrow> VStr s)"
  using assms match_startswith [of s]
  by (auto simp: resolve_leaf_def Let_def split: option.splits)

lemma resolve_leaf_overridden:
  assumes "environ (env_lookup_key (env_prefix st) key_tup) = Some e" and "e \<noteq> []"
  shows "resolve_leaf environ st key_tup v =
     (case interpolated_settings_match e of
        Some ident \<Rightarrow> getattr_or_none st ident
      | None \<Rightarrow> VStr e)"
  using assms match_startswith [of e]
  by (auto simp: resolve_leaf_def Let_def split: option.splits)

lemma update_middle:
  "k \<notin> fst ` set ys \<Longrightarrow> AList.update k w (ys @ (k, v) # xs) = ys @ (k, w) # xs"
  by (induction ys) auto

lemma override_loop_suffix:
  "distinct (map fst (ys @ xs)) \<Longrightarrow>
   override_loop environ st xs (ys @ xs) =
     ys @ map (\<lambda>(k, v). (k, resolve_leaf environ st k v)) xs"
proof (induction xs arbitrary: ys)
  case Nil
  then show ?case by simp
next
  case (Cons x xs)
  obtain k v where x: "x = (k, v)" by (cases x)
  from Cons.prems x have notin: "k \<notin> fst ` set ys" by auto
  from Cons.prems x have d: "distinct (map fst ((ys @ [(k, resolve_leaf environ st k v)]) @ xs))"
    by auto
  have "override_loop environ st (x # xs) (ys @ x # xs) =
      override_loop environ st xs ((ys @ [(k, resolve_leaf environ st k v)]) @ xs)"
    using x notin by (simp add: update_middle)
  also have "\<dots> = (ys @ [(k, resolve_leaf environ st k v)]) @
      map (\<lambda>(k, v). (k, resolve_leaf environ st k v)) xs"
    using Cons.IH [OF d] .
  finally show ?case using x by simp
qed

lemma resolve_overrides_map:
  "distinct (map fst flat_config) \<Longrightarrow>
   resolve_overrides environ st flat_config =
     map (\<lambda>(k, v). (k, resolve_leaf environ st k v)) flat_config"
  using override_loop_suffix [of "[]" flat_config environ st]
  by (simp add: resolve_overrides_def)

lemma map_of_resolved:
  assumes "distinct (map fst flat_config)" and "(key_tup, v) \<in> set flat_config"
  shows "map_of (resolve_overrides environ st flat_config) key_tup =
     Some (resolve_leaf environ st key_tup v)"
proof -
  have "map_of flat_config key_tup = Some v"
    using assms by simp
  then have "map_of (map (\<lambda>(k, v). (k, resolve_leaf environ st k v)) flat_config) key_tup =
      Some (resolve_leaf environ st key_tup v)"
    by (induction flat_config) (auto split: if_splits)
  then show ?thesis
    using assms(1) by (simp add: resolve_overrides_map)
qed

text \<open>
  C1, as stated: an environment value replaces the leaf verbatim and never receives
  settings-reference resolution. The leaf \<open>version\<close> is overridden by the environment
  value \<open>{{log_level}}\<close>, which the second \<open>if\<close> of the loop body then resolves
  against the settings.
\<close>

theorem env_override_verbatim_counterexample:
  "example_environ (env_lookup_key (env_prefix example_settings) [''version'']) =
     Some ''{{log_level}}'' \<and>
   spec_reference ''{{log_level}}'' ''log_level'' \<and>
   map_of (resolve_overrides example_environ example_settings example_flat) [''version''] =
     Some (VStr ''WARNING'') \<and>
   VStr ''WARNING'' \<noteq> VStr ''{{log_level}}''"
  by code_simp

lemma reference_before_newline_last:
  "reference_before_newline s ident \<Longrightarrow> last s = CHR 0x0A"
  by (simp add: reference_before_newline_def)

text \<open>
  C1, amended: for every leaf of the flattened configuration whose environment variable
  is set and non-empty, the file value (of whatever type) is discarded and the
  environment string takes its place without type coercion, so the environment always
  wins over the file value; the environment string then goes through the same
  settings-reference check as a file value: when it is exactly of the form
  \<open>{{NAME}}\<close> the leaf becomes the named attribute of the settings (null when
  absent), and any other environment string that does not end in a newline is the final
  leaf value verbatim.
\<close>

theorem env_override_then_reference:
  assumes "distinct (map fst flat_config)"
    and "(key_tup, v) \<in> set flat_config"
    and "environ (env_lookup_key (env_prefix st) key_tup) = Some e"
    and "e \<noteq> []"
  shows "(spec_reference e ident \<longrightarrow>
            map_of (resolve_overrides environ st flat_config) key_tup =
              Some (case attrs st ident of Some a \<Rightarrow> a | None \<Rightarrow> VNone)) \<and>
         ((\<forall>i. \<not> spec_reference e i) \<and> last e \<noteq> CHR 0x0A \<longrightarrow>
            map_of (resolve_overrides environ st flat_config) key_tup = Some (VStr e))"
proof -
  have r: "map_of (resolve_overrides environ st flat_config) key_tup =
      Some (case interpolated_settings_match e of
              Some i \<Rightarrow> getattr_or_none st i | None \<Rightarrow> VStr e)"
    using map_of_resolved [OF assms(1,2), of environ st]
      resolve_leaf_overridden [of environ st key_tup e v] assms(3,4) by simp
  show ?thesis
  proof (intro conjI impI)
    assume "spec_reference e ident"
    then have "interpolated_settings_match e = Some ident"
      by (simp add: match_iff)
    with r show "map_of (resolve_overrides environ st flat_config) key_tup =
        Some (case attrs st ident of Some a \<Rightarrow> a | None \<Rightarrow> VNone)"
      by (simp add: getattr_or_none_def)
  next
    assume a: "(\<forall>i. \<not> spec_reference e i) \<and> last e \<noteq> CHR 0x0A"
    then have "\<forall>i. \<not> reference_before_newline e i"
      using reference_before_newline_last by blast
    with a have "interpolated_settings_match e = None"
      by (simp add: match_None_iff)
    with r show "map_of (resolve_overrides environ st flat_config) key_tup = Some (VStr e)"
      by simp
  qed
qed

text \<open>
  C1, amended, on the example: the string leaf \<open>plain text\<close> overridden by \<open>DEBUG\<close>,
  and the integer leaf \<open>version\<close> overridden by \<open>{{log_level}}\<close>.
\<close>

theorem env_override_then_reference_witness:
  "distinct (map fst example_flat) \<and>
   ([''loggers'', ''root'', ''text''], VStr ''plain text'') \<in> set example_flat \<and>
   example_environ (env_lookup_key (env_prefix example_settings) [''loggers'', ''root'', ''text'']) =
     Some ''DEBUG'' \<and>
   map_of (resolve_overrides example_environ example_settings example_flat)
     [''loggers'', ''root'', ''text''] = Some (VStr ''DEBUG'') \<and>
   ([''version''], VInt 1) \<in> set example_flat \<and>
   map_of (resolve_overrides example_environ example_settings example_flat) [''version''] =
     Some (VStr ''WARNING'')"
proof -
  have d: "distinct (map fst example_flat)" by code_simp
  have m: "([''loggers'', ''root'', ''text''], VStr ''plain text'') \<in> set example_flat"
    by code_simp
  have e: "example_environ
      (env_lookup_key (env_prefix example_settings) [''loggers'', ''root'', ''text'']) = Some ''DEBUG''"
    by code_simp
  have ne: "''DEBUG'' \<noteq> []" by simp
  have n: "(\<forall>i. \<not> spec_reference ''DEBUG'' i) \<and> last ''DEBUG'' \<noteq> CHR 0x0A"
    by (simp add: spec_reference_def)
  have m2: "([''version''], VInt 1) \<in> set example_flat" by code_simp
  have e2: "example_environ (env_lookup_key (env_prefix example_settings) [''version'']) =
      Some ''{{log_level}}''"
    by code_simp
  have ne2: "''{{log_level}}'' \<noteq> []" by simp
  have s2: "spec_reference ''{{log_level}}'' ''log_level''" by code_simp
  have a2: "attrs example_settings ''log_level'' = Some (VStr ''WARNING'')" by code_simp
  from env_override_then_reference
    [where environ = example_environ and st = example_settings, OF d m e ne] n
  have r1: "map_of (resolve_overrides example_environ example_settings example_flat)
     [''loggers'', ''root'', ''text''] = Some (VStr ''DEBUG'')"
    by blast
  from env_override_then_reference
    [where environ = example_environ and st = example_settings and ident = "''log_level''",
      OF d m2 e2 ne2] s2 a2
  have r2: "map_of (resolve_overrides example_environ example_settings example_flat) [''version''] =
     Some (VStr ''WARNING'')"
    by simp
  from d m e r1 m2 r2 show ?thesis by blast
qed

text \<open>
  C6 at a failing input: the leaf \<open>{{log_level}}\<close> followed by a newline is not of
  the form \<open>{{IDENTIFIER}}\<close>, so C6 has it pass through unchanged. The pattern is
  anchored with \<open>$\<close>, which also matches just before a final newline, and the leaf
  is replaced by the setting.
\<close>

theorem reference_before_newline_replaced:
  "([''loggers'', ''root'', ''line''], VStr (''{{log_level}}'' @ [CHR 0x0A])) \<in> set example_flat \<and>
   example_environ (env_lookup_key (env_prefix example_settings) [''loggers'', ''root'', ''line'']) =
     None \<and>
   \<not> spec_reference (''{{log_level}}'' @ [CHR 0x0A]) ''log_level'' \<and>
   interpolated_settings_match (''{{log_level}}'' @ [CHR 0x0A]) = Some ''log_level'' \<and>
   map_of (resolve_overrides example_environ example_settings example_flat)
     [''loggers'', ''root'', ''line''] = Some (VStr ''WARNING'') \<and>
   VStr ''WARNING'' \<noteq> VStr (''{{log_level}}'' @ [CHR 0x0A])"
  by code_simp

text \<open>
  Apart from that input the loop does what C6 says: a string leaf not overridden by
  the environment is replaced by the named attribute (null when absent) when it is a
  settings reference, and passes through unchanged when it is neither a reference nor
  a reference followed by a final newline.
\<close>

lemma settings_reference_resolution:
  assumes "distinct (map fst flat_config)"
    and "(key_tup, VStr s) \<in> set flat_config"
    and "environ (env_lookup_key (env_prefix st) key_tup) = None \<or>
         environ (env_lookup_key (env_prefix st) key_tup) = Some []"
  shows "(spec_reference s ident \<longrightarrow>
            map_of (resolve_overrides environ st flat_config) key_tup =
              Some (case attrs st ident of Some a \<Rightarrow> a | None \<Rightarrow> VNone)) \<and>
         ((\<forall>i. \<not> spec_reference s i \<and> \<not> reference_before_newline s i) \<longrightarrow>
            map_of (resolve_overrides environ st flat_config) key_tup = Some (VStr s))"
proof -
  have r: "map_of (resolve_overrides environ st flat_config) key_tup =
      Some (case interpolated_settings_match s of
              Some i \<Rightarrow> getattr_or_none st i | None \<Rightarrow> VStr s)"
    using map_of_resolved [OF assms(1,2), of environ st]
      resolve_leaf_not_overridden [of environ st key_tup s] assms(3) by simp
  show ?thesis
  proof (intro conjI impI)
    assume "spec_reference s ident"
    then have "interpolated_settings_match s = Some ident"
      by (simp add: match_iff)
    with r show "map_of (resolve_overrides environ st flat_config) key_tup =
        Some (case attrs st ident of Some a \<Rightarrow> a | None \<Rightarrow> VNone)"
      by (simp add: getattr_or_none_def)
  next
    assume "\<forall>i. \<not> spec_reference s i \<and> \<not> reference_before_newline s i"
    then have "interpolated_settings_match s = None"
      by (simp add: match_None_iff)
    with r show "map_of (resolve_overrides environ st flat_config) key_tup = Some (VStr s)"
      by simp
  qed
qed

lemma settings_reference_examples:
  "map_of (resolve_overrides example_environ example_settings example_flat)
     [''loggers'', ''root'', ''level''] = Some (VStr ''WARNING'') \<and>
   map_of (resolve_overrides example_environ example_settings example_flat)
     [''loggers'', ''root'', ''missing''] = Some VNone \<and>
   map_of (resolve_overrides example_environ example_settings example_flat)
     [''loggers'', ''root'', ''note''] = Some (VStr ''{{not closed'') \<and>
   interpolated_settings_match (''{{niv'' @ [CHR 0xE9] @ ''}}'') = Some (''niv'' @ [CHR 0xE9])"
  by code_simp


section \<open>Flattening and unflattening\<close>

lemma update_fresh: "k \<notin> fst ` set d \<Longrightarrow> AList.update k v d = d @ [(k, v)]"
  by (induction d) auto

lemma update_last:
  "k \<notin> fst ` set acc \<Longrightarrow> AList.update k w (acc @ [(k, v)]) = acc @ [(k, w)]"
  by (induction acc) auto

lemma map_of_fresh: "k \<notin> fst ` set d \<Longrightarrow> map_of d k = None"
  by (simp add: map_of_eq_None_iff)

lemma map_of_last: "k \<notin> fst ` set acc \<Longrightarrow> map_of (acc @ [(k, v)]) k = Some v"
  by (induction acc) auto

lemma insert_path_new:
  assumes "k \<notin> fst ` set acc" and "p \<noteq> []"
  shows "insert_path (k # p) v acc =
     map_option (\<lambda>sub. acc @ [(k, VDict sub)]) (insert_path p v [])"
proof -
  from assms(2) obtain k' ks where p: "p = k' # ks" by (cases p) auto
  have "map_of acc k = None"
    using assms(1) by (rule map_of_fresh)
  then have sd: "setdefault_dict acc k = Some []"
    unfolding setdefault_dict_def by (simp only: option.case)
  show ?thesis
    using assms(1) unfolding p
    by (simp add: sd update_fresh split: option.splits)
qed

lemma insert_path_below:
  assumes "k \<notin> fst ` set acc" and "p \<noteq> []"
  shows "insert_path (k # p) v (acc @ [(k, VDict sub)]) =
     map_option (\<lambda>sub'. acc @ [(k, VDict sub')]) (insert_path p v sub)"
proof -
  from assms(2) obtain k' ks where p: "p = k' # ks" by (cases p) auto
  have "map_of (acc @ [(k, VDict sub)]) k = Some (VDict sub)"
    using assms(1) by (rule map_of_last)
  then have sd: "setdefault_dict (acc @ [(k, VDict sub)]) k = Some sub"
    unfolding setdefault_dict_def by (simp only: option.case val.case)
  show ?thesis
    using assms(1) unfolding p
    by (simp add: sd update_last split: option.splits)
qed

lemma from_below:
  assumes "k \<notin> fst ` set acc" and "\<forall>p \<in> fst ` set items. p \<noteq> []"
  shows "flatdict_to_dict_from (map (\<lambda>(p, w). (k # p, w)) items) (acc @ [(k, VDict sub)]) =
     map_option (\<lambda>sub'. acc @ [(k, VDict sub')]) (flatdict_to_dict_from items sub)"
  using assms(2)
proof (induction items arbitrary: sub)
  case Nil
  show ?case by simp
next
  case (Cons item items)
  obtain p w where item: "item = (p, w)" by (cases item)
  from Cons.prems item have p: "p \<noteq> []" by auto
  from Cons.prems have rest: "\<forall>p \<in> fst ` set items. p \<noteq> []" by auto
  show ?case
  proof (cases "insert_path p w sub")
    case None
    then show ?thesis
      using item insert_path_below [OF assms(1) p, of w sub] by simp
  next
    case (Some sub')
    then show ?thesis
      using item insert_path_below [OF assms(1) p, of w sub] Cons.IH [OF rest, of sub'] by simp
  qed
qed

lemma from_new:
  assumes "k \<notin> fst ` set acc" and "\<forall>p \<in> fst ` set items. p \<noteq> []" and "items \<noteq> []"
  shows "flatdict_to_dict_from (map (\<lambda>(p, w). (k # p, w)) items) acc =
     map_option (\<lambda>sub. acc @ [(k, VDict sub)]) (flatdict_to_dict_from items [])"
proof -
  from assms(3) obtain p w rest where items: "items = (p, w) # rest"
    by (cases items) auto
  from assms(2) items have p: "p \<noteq> []" and rest: "\<forall>p \<in> fst ` set rest. p \<noteq> []"
    by auto
  show ?thesis
  proof (cases "insert_path p w []")
    case None
    then show ?thesis
      using items insert_path_new [OF assms(1) p, of w] by simp
  next
    case (Some sub)
    then show ?thesis
      using items insert_path_new [OF assms(1) p, of w] from_below [OF assms(1) rest, of sub]
      by simp
  qed
qed

lemma from_append:
  "flatdict_to_dict_from (xs @ ys) acc =
     (case flatdict_to_dict_from xs acc of
        None \<Rightarrow> None
      | Some acc' \<Rightarrow> flatdict_to_dict_from ys acc')"
  by (induction xs arbitrary: acc) (auto split: option.splits)

lemma flat_paths_nonempty: "\<forall>p \<in> fst ` set (dict_to_flatdict d). p \<noteq> []"
  by (induction d rule: dict_to_flatdict.induct) auto

lemma flat_nonempty: "d \<noteq> [] \<Longrightarrow> dict_to_flatdict d \<noteq> []"
  by (induction d rule: dict_to_flatdict.induct) auto

lemma resolve_items_simps [simp]:
  "resolve_items f [] = []"
  "resolve_items f ((p, w) # items) = (p, f p w) # resolve_items f items"
  "resolve_items f (xs @ ys) = resolve_items f xs @ resolve_items f ys"
  by (simp_all add: resolve_items_def)

lemma resolve_items_below:
  "resolve_items f (map (\<lambda>(p, w). (k # p, w)) items) =
     map (\<lambda>(p, w). (k # p, w)) (resolve_items (\<lambda>p. f (k # p)) items)"
  by (induction items) (auto simp: resolve_items_def)

lemma resolve_items_paths: "fst ` set (resolve_items f items) = fst ` set items"
  by (induction items) (auto simp: resolve_items_def)

lemma resolve_items_nonempty: "items \<noteq> [] \<Longrightarrow> resolve_items f items \<noteq> []"
  by (simp add: resolve_items_def)

lemma unflatten_resolved:
  "wf_val (VDict d) \<Longrightarrow> distinct (map fst (acc @ d)) \<Longrightarrow>
   flatdict_to_dict_from (resolve_items f (dict_to_flatdict d)) acc = Some (acc @ map_leaves f d)"
proof (induction d arbitrary: acc f rule: dict_to_flatdict.induct)
  case 1
  show ?case by simp
next
  case (2 k x xs rest)
  let ?sub = "x # xs"
  let ?g = "\<lambda>p. f (k # p)"
  from "2.prems" have k: "k \<notin> fst ` set acc" by auto
  from "2.prems" have wf_sub: "wf_val (VDict ?sub)" by simp
  have sub: "flatdict_to_dict_from (resolve_items ?g (dict_to_flatdict ?sub)) [] =
      Some (map_leaves ?g ?sub)"
    using "2.IH"(1) [of "[]" ?g] wf_sub "2.prems"(1) by simp
  have paths: "\<forall>p \<in> fst ` set (resolve_items ?g (dict_to_flatdict ?sub)). p \<noteq> []"
    using flat_paths_nonempty [of ?sub] by (simp only: resolve_items_paths)
  have ne: "resolve_items ?g (dict_to_flatdict ?sub) \<noteq> []"
    by (rule resolve_items_nonempty) (rule flat_nonempty, simp)
  have first: "flatdict_to_dict_from
      (map (\<lambda>(p, w). (k # p, w)) (resolve_items ?g (dict_to_flatdict ?sub))) acc =
      Some (acc @ [(k, VDict (map_leaves ?g ?sub))])"
    using from_new [OF k paths ne] sub by simp
  from "2.prems" have wf_rest: "wf_val (VDict rest)" by simp
  from "2.prems" have d_rest: "distinct (map fst ((acc @ [(k, VDict (map_leaves ?g ?sub))]) @ rest))"
    by auto
  have second: "flatdict_to_dict_from (resolve_items f (dict_to_flatdict rest))
      (acc @ [(k, VDict (map_leaves ?g ?sub))]) =
      Some ((acc @ [(k, VDict (map_leaves ?g ?sub))]) @ map_leaves f rest)"
    using "2.IH"(2) [OF wf_rest d_rest] .
  show ?case
    using first second by (simp add: resolve_items_below from_append)
qed (auto simp: update_fresh)

lemma map_leaves_id: "map_leaves (\<lambda>p v. v) d = d"
  by (induction d rule: dict_to_flatdict.induct) auto

lemma paths_below:
  "map fst (map (\<lambda>(p, w). (k # p, w)) items) = map ((#) k) (map fst items)"
  by (induction items) auto

lemma flat_path_head:
  "(p, v) \<in> set (dict_to_flatdict d) \<Longrightarrow> \<exists>k ks. p = k # ks \<and> k \<in> fst ` set d"
proof (induction d arbitrary: p v rule: dict_to_flatdict.induct)
  case 1
  then show ?case by simp
next
  case (2 k x xs rest)
  show ?case
  proof (cases "(p, v) \<in> set (dict_to_flatdict rest)")
    case True
    from "2.IH"(2) [OF True] show ?thesis by auto
  next
    case False
    with "2.prems" have "p \<in> set (map fst (map (\<lambda>(p, w). (k # p, w)) (dict_to_flatdict (x # xs))))"
      by force
    then have "p \<in> (#) k ` set (map fst (dict_to_flatdict (x # xs)))"
      by (simp only: paths_below set_map)
    then obtain q where "p = k # q" by blast
    then show ?thesis by simp
  qed
qed (simp_all, blast+)


lemma distinct_below:
  "distinct (map fst items) \<Longrightarrow> distinct (map fst (map (\<lambda>(p, w). (k # p, w)) items))"
  unfolding paths_below by (simp add: distinct_map inj_on_def)

lemma flat_single_head: "([k], v) \<in> set (dict_to_flatdict d) \<Longrightarrow> k \<in> fst ` set d"
  using flat_path_head [of "[k]" v d] by auto

lemma flat_single_fresh:
  "k \<notin> fst ` set d \<Longrightarrow> [k] \<notin> fst ` set (dict_to_flatdict d)"
  using flat_single_head [of k _ d] by force

lemma flat_distinct: "wf_val (VDict d) \<Longrightarrow> distinct (map fst (dict_to_flatdict d))"
proof (induction d rule: dict_to_flatdict.induct)
  case 1
  show ?case by simp
next
  case (2 k x xs rest)
  from "2.prems" have sub: "distinct (map fst (dict_to_flatdict (x # xs)))"
    using "2.IH"(1) by simp
  from "2.prems" have rest: "distinct (map fst (dict_to_flatdict rest))"
    using "2.IH"(2) by simp
  from "2.prems" have k: "k \<notin> fst ` set rest" by auto
  have disj: "set (map fst (map (\<lambda>(p, w). (k # p, w)) (dict_to_flatdict (x # xs)))) \<inter>
      set (map fst (dict_to_flatdict rest)) = {}"
  proof (rule ccontr)
    assume "\<not> ?thesis"
    then obtain p where p1: "p \<in> set (map fst (map (\<lambda>(p, w). (k # p, w)) (dict_to_flatdict (x # xs))))"
      and p2: "p \<in> set (map fst (dict_to_flatdict rest))" by blast
    from p1 have "p \<in> (#) k ` set (map fst (dict_to_flatdict (x # xs)))"
      by (simp only: paths_below set_map)
    then obtain ks where p: "p = k # ks" by blast
    from p2 obtain v where "(p, v) \<in> set (dict_to_flatdict rest)" by auto
    from flat_path_head [OF this] p k show False by auto
  qed
  have "distinct (map fst (map (\<lambda>(p, w). (k # p, w)) (dict_to_flatdict (x # xs))) @
      map fst (dict_to_flatdict rest))"
    using distinct_below [OF sub, of k] rest disj by (simp only: distinct_append simp_thms)
  then show ?case by simp
qed (simp_all add: flat_single_fresh)

lemma resolve_items_id: "resolve_items (\<lambda>p v. v) items = items"
  by (induction items) (auto simp: resolve_items_def)

lemma roundtrip: "wf_val (VDict x) \<Longrightarrow> flatdict_to_dict (dict_to_flatdict x) = Some x"
  using unflatten_resolved [of x "[]" "\<lambda>p v. v"]
  by (simp add: flatdict_to_dict_def resolve_items_id map_leaves_id)

lemma unflatten_overrides:
  assumes "wf_val (VDict x)"
  shows "flatdict_to_dict (resolve_overrides environ st (dict_to_flatdict x)) =
     Some (map_leaves (resolve_leaf environ st) x)"
proof -
  have "resolve_overrides environ st (dict_to_flatdict x) =
      resolve_items (resolve_leaf environ st) (dict_to_flatdict x)"
    using flat_distinct [OF assms] by (simp add: resolve_overrides_map resolve_items_def)
  then show ?thesis
    using unflatten_resolved [of x "[]" "resolve_leaf environ st"] assms
    by (simp add: flatdict_to_dict_def)
qed

text \<open>
  C3: flattening and unflattening are inverse to each other on every nested mapping (a
  dictionary has distinct keys at every depth, so its leaf paths are unique and none is
  a strict prefix of another), and \<open>load_logging_config\<close> returns the parsed tree with
  the same shape, every leaf replaced by what the loop assigns to it.
\<close>

theorem flatten_unflatten_roundtrip:
  assumes "wf_val (VDict x)"
  shows "flatdict_to_dict (dict_to_flatdict x) = Some x \<and>
         (files w path = Some content \<and> yaml_safe_load w content = Some (VDict x) \<longrightarrow>
            load_logging_config w path st =
              Inr (map_leaves (resolve_leaf (os_environ w) st) x))"
  using roundtrip [OF assms] unflatten_overrides [OF assms, of "os_environ w" st]
  by (simp add: load_logging_config_def flatten_parsed_def unflatten_resolved_config_def)

theorem flatten_unflatten_roundtrip_witness:
  "wf_val (VDict example_tree) \<and>
   dict_to_flatdict example_tree =
     [([''version''], VInt 1),
      ([''loggers'', ''root'', ''level''], VStr ''{{log_level}}''),
      ([''loggers'', ''root'', ''handlers''], VDict []),
      ([''note''], VStr ''plain text'')] \<and>
   flatdict_to_dict (dict_to_flatdict example_tree) = Some example_tree \<and>
   load_logging_config (example_world (Some example_tree_file) None [])
       ''/etc/prefect/logging.yml'' example_settings =
     Inr [(''version'', VInt 1),
          (''loggers'', VDict [(''root'', VDict [(''level'', VStr ''WARNING''),
                                                 (''handlers'', VDict [])])]),
          (''note'', VStr ''plain text'')]"
proof -
  let ?w = "example_world (Some example_tree_file) None []"
  have wf: "wf_val (VDict example_tree)" by code_simp
  have flat: "dict_to_flatdict example_tree =
     [([''version''], VInt 1),
      ([''loggers'', ''root'', ''level''], VStr ''{{log_level}}''),
      ([''loggers'', ''root'', ''handlers''], VDict []),
      ([''note''], VStr ''plain text'')]" by code_simp
  have f: "files ?w ''/etc/prefect/logging.yml'' = Some example_tree_file"
    by (simp add: example_world_def)
  have y: "yaml_safe_load ?w example_tree_file = Some (VDict example_tree)"
    by (simp add: example_world_def example_yaml_def)
  have m: "map_leaves (resolve_leaf (os_environ ?w) example_settings) example_tree =
      [(''version'', VInt 1),
       (''loggers'', VDict [(''root'', VDict [(''level'', VStr ''WARNING''),
                                              (''handlers'', VDict [])])]),
       (''note'', VStr ''plain text'')]"
    by code_simp
  from flatten_unflatten_roundtrip [OF wf, of ?w "''/etc/prefect/logging.yml''"
      example_tree_file example_settings] f y m wf flat
  show ?thesis by simp
qed


section \<open>Setting up logging once\<close>


lemma config_diff_subset:
  "config_diff stored config = Inr diff \<Longrightarrow> set diff \<subseteq> set config"
  by (induction config arbitrary: diff) (auto split: option.splits sum.splits if_splits, blast+)

lemma config_diff_agree:
  "\<forall>(k, v) \<in> set config. \<exists>old. map_of stored k = Some old \<and> py_eq old v \<Longrightarrow>
   config_diff stored config = Inr []"
  by (induction config) auto


lemma config_diff_missing:
  "(k, v) \<in> set config \<Longrightarrow> map_of stored k = None \<Longrightarrow> \<exists>k'. config_diff stored config = Inl (KeyError k')"
  by (induction config) (auto split: option.splits sum.splits)

lemma configured_Some: "stored \<noteq> [] \<Longrightarrow> configured (Some stored) = Some stored"
  by (simp add: configured_def)

lemma configured_unset: "configured None = None" "configured (Some []) = None"
  by (simp_all add: configured_def)

lemma setup_first:
  assumes "configured (PROCESS_LOGGING_CONFIG s) = None"
    and "load_logging_config w (config_path w st) st = Inr config"
    and "dictConfig w config (loggers s) = Some reg"
  shows "setup_logging w st s = Inr (apply_config st config reg s)"
  using assms by (simp add: setup_logging_def)

lemma setup_guarded:
  assumes "configured (PROCESS_LOGGING_CONFIG s) = Some stored"
    and "load_logging_config w (config_path w st) st = Inr config"
  shows "setup_logging w st s =
     (case config_diff stored config of
        Inl e \<Rightarrow> Inl e
      | Inr diff \<Rightarrow> Inr (if diff \<noteq> [] then s\<lparr>warnings := warnings s @ [diff]\<rparr> else s))"
  using assms by (simp add: setup_logging_def)

lemma apply_config_fields:
  "PROCESS_LOGGING_CONFIG (apply_config st config reg s) = Some config"
  "applied (apply_config st config reg s) = applied s @ [config]"
  "warnings (apply_config st config reg s) = warnings s"
  "loggers (apply_config st config reg s) = copy_extra_config (extra_loggers st) reg"
  by (simp_all add: apply_config_def)

text \<open>
  C8: file errors reach the caller of \<open>setup_logging\<close>. When \<open>settings_path\<close> does
  not exist the bundled default path is read; when that file is absent too, the result
  is \<open>NotFoundError\<close>; when the content of the file read does not parse, or parses
  to something that is not a mapping, the result is \<open>ParseError\<close>.
\<close>

theorem setup_surfaces_file_errors:
  "(files w (settings_path st) = None \<longrightarrow>
      config_path w st = DEFAULT_LOGGING_SETTINGS_PATH w) \<and>
   (files w (settings_path st) = None \<and> files w (DEFAULT_LOGGING_SETTINGS_PATH w) = None \<longrightarrow>
      setup_logging w st s = Inl NotFoundError) \<and>
   (files w (config_path w st) = Some content \<and> yaml_safe_load w content = None \<longrightarrow>
      setup_logging w st s = Inl ParseError) \<and>
   (files w (config_path w st) = Some content \<and> yaml_safe_load w content = Some v \<and>
    (\<forall>d. v \<noteq> VDict d) \<longrightarrow>
      setup_logging w st s = Inl ParseError)"
proof (intro conjI impI)
  assume "files w (settings_path st) = None"
  then show "config_path w st = DEFAULT_LOGGING_SETTINGS_PATH w"
    by (simp add: config_path_def)
next
  assume "files w (settings_path st) = None \<and> files w (DEFAULT_LOGGING_SETTINGS_PATH w) = None"
  then show "setup_logging w st s = Inl NotFoundError"
    by (simp add: setup_logging_def config_path_def load_logging_config_def)
next
  assume "files w (config_path w st) = Some content \<and> yaml_safe_load w content = None"
  then show "setup_logging w st s = Inl ParseError"
    by (simp add: setup_logging_def load_logging_config_def)
next
  assume a: "files w (config_path w st) = Some content \<and> yaml_safe_load w content = Some v \<and>
    (\<forall>d. v \<noteq> VDict d)"
  then have "load_logging_config w (config_path w st) st = Inl ParseError"
    by (cases v) (simp_all add: load_logging_config_def flatten_parsed_def)
  then show "setup_logging w st s = Inl ParseError"
    by (simp add: setup_logging_def)
qed

text \<open>C8 on the example files: both files missing, an unclosed mapping, a list.\<close>

theorem setup_surfaces_file_errors_witness:
  "observe (setup_logging (example_world None None []) example_settings initial_process) =
     Inl NotFoundError \<and>
   observe (setup_logging (example_world (Some ''{version: 1'') (Some ''{version: 1}'') [])
     example_settings initial_process) = Inl ParseError \<and>
   observe (setup_logging (example_world (Some ''- console'') (Some ''{version: 1}'') [])
     example_settings initial_process) = Inl ParseError \<and>
   config_path (example_world None (Some ''{version: 1}'') []) example_settings =
     ''/opt/prefect/logging.yml''"
proof -
  let ?w0 = "example_world None None []"
  let ?w1 = "example_world (Some ''{version: 1'') (Some ''{version: 1}'') []"
  let ?w2 = "example_world (Some ''- console'') (Some ''{version: 1}'') []"
  let ?w3 = "example_world None (Some ''{version: 1}'') []"
  have p: "settings_path example_settings = ''/etc/prefect/logging.yml''"
    by (simp add: example_settings_def)
  have f0: "files ?w0 (settings_path example_settings) = None \<and>
      files ?w0 (DEFAULT_LOGGING_SETTINGS_PATH ?w0) = None"
    by (simp add: example_world_def p)
  have c1: "config_path ?w1 example_settings = ''/etc/prefect/logging.yml''"
    by (simp add: config_path_def example_world_def p)
  have f1: "files ?w1 (config_path ?w1 example_settings) = Some ''{version: 1'' \<and>
      yaml_safe_load ?w1 ''{version: 1'' = None"
    unfolding c1 by (simp add: example_world_def example_yaml_def example_tree_file_def)
  have c2: "config_path ?w2 example_settings = ''/etc/prefect/logging.yml''"
    by (simp add: config_path_def example_world_def p)
  have f2: "files ?w2 (config_path ?w2 example_settings) = Some ''- console'' \<and>
      yaml_safe_load ?w2 ''- console'' = Some (VList [VStr ''console'']) \<and>
      (\<forall>d. VList [VStr ''console''] \<noteq> VDict d)"
    unfolding c2 by (simp add: example_world_def example_yaml_def example_tree_file_def)
  have f3: "files ?w3 (settings_path example_settings) = None"
    by (simp add: example_world_def p)
  from setup_surfaces_file_errors
      [where w = ?w0 and st = example_settings and s = initial_process] f0
  have r0: "setup_logging ?w0 example_settings initial_process = Inl NotFoundError"
    by blast
  from setup_surfaces_file_errors
      [where w = ?w1 and st = example_settings and s = initial_process
         and content = "''{version: 1''"] f1
  have r1: "setup_logging ?w1 example_settings initial_process = Inl ParseError"
    by blast
  from setup_surfaces_file_errors
      [where w = ?w2 and st = example_settings and s = initial_process
         and content = "''- console''" and v = "VList [VStr ''console'']"] f2
  have r2: "setup_logging ?w2 example_settings initial_process = Inl ParseError"
    by blast
  from setup_surfaces_file_errors [where w = ?w3 and st = example_settings] f3
  have r3: "config_path ?w3 example_settings = DEFAULT_LOGGING_SETTINGS_PATH ?w3"
    by blast
  have d: "DEFAULT_LOGGING_SETTINGS_PATH ?w3 = ''/opt/prefect/logging.yml''"
    by (simp add: example_world_def)
  show ?thesis
    unfolding r0 r1 r2 r3 d by (simp add: observe_def)
qed

lemma config_diff_present:
  "\<forall>k \<in> fst ` set config. map_of stored k \<noteq> None \<Longrightarrow>
   config_diff stored config =
     Inr (filter (\<lambda>(k, v). \<exists>old. map_of stored k = Some old \<and> \<not> py_eq old v) config)"
  by (induction config) auto

lemma repeated_setup_warns:
  assumes "load_logging_config w (config_path w st) st = Inr config"
    and "PROCESS_LOGGING_CONFIG s = Some stored"
    and "stored \<noteq> []"
    and "\<forall>k \<in> fst ` set config. map_of stored k \<noteq> None"
    and "diff = filter (\<lambda>(k, v). \<exists>old. map_of stored k = Some old \<and> \<not> py_eq old v) config"
    and "diff \<noteq> []"
  shows "setup_logging w st s = Inr (s\<lparr>warnings := warnings s @ [diff]\<rparr>)"
proof -
  have c: "configured (PROCESS_LOGGING_CONFIG s) = Some stored"
    using assms(2,3) by (simp add: configured_Some)
  show ?thesis
    using setup_guarded [OF c assms(1)] config_diff_present [OF assms(4)] assms(5,6) by simp
qed

lemma repeated_setup_raises:
  assumes "load_logging_config w (config_path w st) st = Inr config"
    and "PROCESS_LOGGING_CONFIG s = Some stored"
    and "stored \<noteq> []"
    and "(k, v) \<in> set config"
    and "map_of stored k = None"
  shows "\<exists>k'. setup_logging w st s = Inl (KeyError k')"
proof -
  have c: "configured (PROCESS_LOGGING_CONFIG s) = Some stored"
    using assms(2,3) by (simp add: configured_Some)
  from config_diff_missing [OF assms(4,5)] obtain k' where
    "config_diff stored config = Inl (KeyError k')" by blast
  then show ?thesis
    using setup_guarded [OF c assms(1)] by simp
qed

lemma fold_copy_step:
  assumes "name \<noteq> ''prefect.extra''"
  shows "fold (copy_step name) hs reg ''prefect.extra'' = reg ''prefect.extra'' \<and>
         set (handlers (fold (copy_step name) hs reg name)) = set (handlers (reg name)) \<union> set hs \<and>
         (hs \<noteq> [] \<longrightarrow>
            level (fold (copy_step name) hs reg name) =
              (if level (reg name) = NOTSET then level (reg ''prefect.extra'')
               else level (reg name)) \<and>
            propagate (fold (copy_step name) hs reg name) = propagate (reg ''prefect.extra''))"
proof (induction hs arbitrary: reg)
  case Nil
  show ?case by simp
next
  case (Cons h hs)
  let ?r = "copy_step name h reg"
  have t: "?r ''prefect.extra'' = reg ''prefect.extra''"
    using assms by (simp add: copy_step_def Let_def)
  have h: "set (handlers (?r name)) = set (handlers (reg name)) \<union> {h}"
    using assms by (auto simp: copy_step_def Let_def addHandler_def)
  have l: "level (?r name) =
      (if level (reg name) = NOTSET then level (reg ''prefect.extra'') else level (reg name))"
    using assms by (simp add: copy_step_def Let_def addHandler_def)
  have p: "propagate (?r name) = propagate (reg ''prefect.extra'')"
    using assms by (simp add: copy_step_def Let_def)
  show ?case
  proof (cases "hs = []")
    case True
    then show ?thesis using t h l p by simp
  next
    case False
    with Cons.IH [of ?r] t h l p show ?thesis by auto
  qed
qed

lemma copy_to_logger_nonempty:
  assumes "name \<noteq> ''prefect.extra''" and "handlers (reg ''prefect.extra'') \<noteq> []"
  shows "set (handlers (reg ''prefect.extra'')) \<subseteq> set (handlers (copy_to_logger name reg name)) \<and>
         level (copy_to_logger name reg name) =
           (if level (reg name) = NOTSET then level (reg ''prefect.extra'')
            else level (reg name)) \<and>
         propagate (copy_to_logger name reg name) = propagate (reg ''prefect.extra'')"
  using fold_copy_step [OF assms(1), of "handlers (reg ''prefect.extra'')" reg] assms(2)
  by (simp add: copy_to_logger_def)

lemma copy_to_logger_empty:
  "handlers (reg ''prefect.extra'') = [] \<Longrightarrow> copy_to_logger name reg = reg"
  by (simp add: copy_to_logger_def)

text \<open>
  C2 at a failing input: logging is set up with \<open>{version: 1}\<close>, then set up again
  with a configuration that has the additional top-level key \<open>handlers\<close>. The claim
  has the second call warn and return; the subscript in \<open>config_diff\<close> raises
  \<open>KeyError\<close> instead.
\<close>

theorem repeated_setup_keyerror:
  "observe (setup_logging (example_world (Some ''{version: 1}'') None [])
       example_settings initial_process) =
     Inr (Some [(''version'', VInt 1)], [[(''version'', VInt 1)]], []) \<and>
   observe (then_setup_logging
       (setup_logging (example_world (Some ''{version: 1}'') None [])
          example_settings initial_process)
       (example_world (Some ''{version: 1, handlers: {}}'') None []) example_settings) =
     Inl (KeyError ''handlers'')"
  by code_simp

text \<open>
  C4 at a failing input: the template logger \<open>prefect.extra\<close> has level \<open>DEBUG\<close>
  (10), no propagation and no handlers. The claim has the extra logger \<open>vendor.lib\<close>
  receive level and propagation flag; level and flag are assigned inside the loop over
  the template's handlers, which does not run, so \<open>vendor.lib\<close> keeps \<open>NOTSET\<close> and
  \<open>propagate = True\<close>. With the handlers 1 and 2 on the template, all three are copied.
\<close>

theorem extra_logger_empty_template:
  "observe_logger ''prefect.extra''
     (setup_logging
        (example_world
           (Some ''{version: 1, loggers: {prefect.extra: {level: DEBUG, propagate: false}}}'')
           None [])
        example_settings initial_process) =
     Inr \<lparr>handlers = [], level = 10, propagate = False\<rparr> \<and>
   observe_logger ''vendor.lib''
     (setup_logging
        (example_world
           (Some ''{version: 1, loggers: {prefect.extra: {level: DEBUG, propagate: false}}}'')
           None [])
        example_settings initial_process) =
     Inr \<lparr>handlers = [], level = 0, propagate = True\<rparr> \<and>
   observe_logger ''vendor.lib''
     (setup_logging
        (example_world
           (Some ''{version: 1, loggers: {prefect.extra: {level: DEBUG, propagate: false}}}'')
           None [1, 2])
        example_settings initial_process) =
     Inr \<lparr>handlers = [1, 2], level = 10, propagate = False\<rparr>"
  by code_simp

text \<open>
  C9: when logging is already configured, the diff runs over the top-level keys of the
  new configuration only. If every key of the new configuration is in the stored one
  with an equal value, the diff is empty whatever else the stored configuration holds,
  and the call returns the state as it was: no warning, nothing applied. Whatever is
  stored, the diff holds entries of the new configuration only.
\<close>

theorem dropped_keys_no_warning:
  assumes "load_logging_config w (config_path w st) st = Inr config"
    and "PROCESS_LOGGING_CONFIG s = Some stored"
    and "stored \<noteq> []"
    and "\<forall>(k, v) \<in> set config. \<exists>old. map_of stored k = Some old \<and> py_eq old v"
  shows "config_diff stored config = Inr [] \<and> setup_logging w st s = Inr s \<and>
         (\<forall>other diff. config_diff other config = Inr diff \<longrightarrow> set diff \<subseteq> set config)"
proof -
  have d: "config_diff stored config = Inr []"
    using assms(4) by (rule config_diff_agree)
  have c: "configured (PROCESS_LOGGING_CONFIG s) = Some stored"
    using assms(2,3) by (simp add: configured_Some)
  have "setup_logging w st s = Inr s"
    using setup_guarded [OF c assms(1)] d by simp
  with d show ?thesis
    using config_diff_subset by blast
qed

text \<open>C9 on an example: the second configuration drops the key \<open>handlers\<close>.\<close>

theorem dropped_keys_no_warning_witness:
  "observe (setup_logging (example_world (Some ''{version: 1, handlers: {}}'') None [7])
       example_settings initial_process) =
     Inr (Some [(''version'', VInt 1), (''handlers'', VDict [])],
          [[(''version'', VInt 1), (''handlers'', VDict [])]], []) \<and>
   observe (then_setup_logging
       (setup_logging (example_world (Some ''{version: 1, handlers: {}}'') None [7])
          example_settings initial_process)
       (example_world (Some ''{version: 1}'') None [7]) example_settings) =
     Inr (Some [(''version'', VInt 1), (''handlers'', VDict [])],
          [[(''version'', VInt 1), (''handlers'', VDict [])]], [])"
proof -
  let ?w1 = "example_world (Some ''{version: 1, handlers: {}}'') None [7]"
  let ?w2 = "example_world (Some ''{version: 1}'') None [7]"
  let ?cfg = "[(''version'', VInt 1), (''handlers'', VDict [])]"
  define reg where "reg = (loggers initial_process)
      (''prefect.extra'' := \<lparr>handlers = [7], level = 10, propagate = False\<rparr>)"
  define s1 where "s1 = apply_config example_settings ?cfg reg initial_process"
  have l1: "load_logging_config ?w1 (config_path ?w1 example_settings) example_settings = Inr ?cfg"
    by code_simp
  have l2: "load_logging_config ?w2 (config_path ?w2 example_settings) example_settings =
      Inr [(''version'', VInt 1)]"
    by code_simp
  have u: "configured (PROCESS_LOGGING_CONFIG initial_process) = None"
    by (simp add: initial_process_def configured_def)
  have dc: "dictConfig ?w1 ?cfg (loggers initial_process) = Some reg"
    by (simp add: dictConfig_def example_world_def example_configurator_def reg_def)
  have first: "setup_logging ?w1 example_settings initial_process = Inr s1"
    unfolding s1_def using u l1 dc by (rule setup_first)
  have p: "PROCESS_LOGGING_CONFIG s1 = Some ?cfg"
    by (simp add: s1_def apply_config_fields)
  have ne: "?cfg \<noteq> []" by simp
  have agree: "\<forall>(k, v) \<in> set [(''version'', VInt 1)].
      \<exists>old. map_of ?cfg k = Some old \<and> py_eq old v"
    by simp
  from dropped_keys_no_warning [OF l2 p ne agree]
  have second: "setup_logging ?w2 example_settings s1 = Inr s1"
    by blast
  have o: "observe (Inr s1) = Inr (Some ?cfg, [?cfg], [])"
    by (simp add: observe_def s1_def apply_config_fields initial_process_def)
  show ?thesis
    using first second o by (simp add: then_setup_logging_def)
qed










end
